theory Spec2Isabelle
  imports Complex_Main "HOL-Library.Multiset"
begin


section \<open>Node model\<close>

text \<open>
  \<^verbatim>\<open>DOMElementNode\<close> objects are compared by reference in the \<^verbatim>\<open>Set\<close>s of the source, so
  every element node carries an instance identity \<open>nid\<close>; two nodes of one snapshot with
  equal fields and different \<open>nid\<close> are different objects. The attributes object is the list
  of its own entries in \<^verbatim>\<open>Object.entries\<close> order (keys inherited from the prototype are not
  modelled). A text node has no children. Of \<^verbatim>\<open>viewportCoordinates\<close> only \<^verbatim>\<open>center\<close> is
  ever read, so the field keeps the centre \<open>(x, y)\<close>. Numbers are exact rationals: the
  rounding of the source's doubles and NaN are not modelled.
\<close>

datatype DOMBaseNode =
  DOMElementNode
    (nid: nat)
    (tagName: string)
    (xpath: string)
    (attributes: "(string \<times> string) list")
    (children: "DOMBaseNode list")
    (isVisible: bool)
    (isInteractive: bool)
    (viewportCoordinates: "(rat \<times> rat) option")
| DOMTextNode (nodeText: string)
where
  "children (DOMTextNode s) = []"

fun isElement :: "DOMBaseNode \<Rightarrow> bool" where
  "isElement (DOMElementNode i t x a cs v ia vc) = True"
| "isElement (DOMTextNode s) = False"

text \<open>\<^verbatim>\<open>parent.children.filter(child => child instanceof DOMElementNode)\<close>\<close>

definition elementChildren :: "DOMBaseNode \<Rightarrow> DOMBaseNode list" where
  "elementChildren parent = filter isElement (children parent)"

text \<open>Property access \<^verbatim>\<open>attrs.key\<close> / \<^verbatim>\<open>attrs[key]\<close>: \<open>None\<close> is \<^verbatim>\<open>undefined\<close>.\<close>

definition getAttr :: "(string \<times> string) list \<Rightarrow> string \<Rightarrow> string option" where
  "getAttr attrs key = map_of attrs key"

text \<open>JavaScript truthiness of a string-or-undefined: neither undefined nor empty.\<close>

fun truthy :: "string option \<Rightarrow> bool" where
  "truthy None = False"
| "truthy (Some v) = (v \<noteq> [])"

section \<open>Similarity scorer\<close>

text \<open>The ASCII members of the regular expression class \<^verbatim>\<open>\s\<close>.\<close>

definition isWs :: "char \<Rightarrow> bool" where
  "isWs c = (c \<in> {CHR '' '', CHR 0x09, CHR 0x0A, CHR 0x0B, CHR 0x0C, CHR 0x0D})"

text \<open>
  \<^verbatim>\<open>s.split(/\s+/)\<close>: the pieces between maximal runs of whitespace; a leading or trailing
  run leaves an empty piece, and the result is never the empty array.
\<close>

fun splitWs :: "string \<Rightarrow> string list" where
  "splitWs [] = [Nil]"
| "splitWs (c # cs) =
     (if isWs c then (if cs \<noteq> [] \<and> isWs (hd cs) then splitWs cs else Nil # splitWs cs)
      else (case splitWs cs of [] \<Rightarrow> [c # Nil] | t # ts \<Rightarrow> (c # t) # ts))"

text \<open>
  \<^verbatim>\<open>calculateSimilarityScore\<close>, with the two accumulators \<open>score\<close> and \<open>totalWeight\<close> of the
  source returned as a pair. A \<^verbatim>\<open>Set\<close> of tokens is the duplicate-free list \<open>remdups\<close>.
\<close>

definition similarityAccum :: "DOMBaseNode \<Rightarrow> DOMBaseNode \<Rightarrow> rat \<times> rat" where
  "similarityAccum elem1 elem2 =
    (let score0 = (0::rat); totalWeight0 = (0::rat);
         score1 = (if tagName elem1 = tagName elem2 then score0 + 3 else score0);
         totalWeight1 = totalWeight0 + 3;
         score2 = (if xpath elem1 = xpath elem2 then score1 + 2 else score1);
         totalWeight2 = totalWeight1 + 2;
         id1 = getAttr (attributes elem1) ''id'';
         id2 = getAttr (attributes elem2) ''id'';
         score3 = (if truthy id1 \<and> truthy id2 \<and> id1 = id2 then score2 + 4 else score2);
         totalWeight3 = totalWeight2 + 4;
         class1 = getAttr (attributes elem1) ''class'';
         class2 = getAttr (attributes elem2) ''class'';
         score4 =
           (if truthy class1 \<and> truthy class2 then
              (let class1Set = remdups (splitWs (the class1));
                   class2Set = remdups (splitWs (the class2));
                   commonClasses = length (filter (\<lambda>cls. cls \<in> set class2Set) class1Set);
                   maxClasses = max (length class1Set) (length class2Set)
               in if maxClasses > 0
                  then score3 + 2 * (rat_of_nat commonClasses / rat_of_nat maxClasses)
                  else score3)
            else score3);
         totalWeight4 = totalWeight3 + 2
     in (score4, totalWeight4))"

definition calculateSimilarityScore :: "DOMBaseNode \<Rightarrow> DOMBaseNode \<Rightarrow> rat" where
  "calculateSimilarityScore elem1 elem2 =
     (case similarityAccum elem1 elem2 of (score, totalWeight) \<Rightarrow> score / totalWeight)"

section \<open>Field-level change detector\<close>

text \<open>
  The descriptors are template strings in the source; a descriptor is kept here as its
  kind together with the values the template interpolates.
\<close>

datatype Change =
  TagChanged string string
| AttrRemoved string string
| AttrChanged string string string
| AttrAdded string string
| VisibilityChanged bool bool
| InteractivityChanged bool bool
| PositionChanged rat rat rat rat

text \<open>\<^verbatim>\<open>key in attrs\<close>\<close>

definition keyIn :: "string \<Rightarrow> (string \<times> string) list \<Rightarrow> bool" where
  "keyIn key attrs = (key \<in> set (map fst attrs))"

text \<open>Body of the loop over \<^verbatim>\<open>Object.entries(oldAttrs)\<close>.\<close>

definition oldAttrStep ::
  "(string \<times> string) list \<Rightarrow> string \<times> string \<Rightarrow> Change list \<Rightarrow> Change list" where
  "oldAttrStep newAttrs entry changes =
     (case entry of (key, value) \<Rightarrow>
        if \<not> keyIn key newAttrs then changes @ [AttrRemoved key value]
        else if getAttr newAttrs key \<noteq> Some value
          then changes @ [AttrChanged key value (the (getAttr newAttrs key))]
        else changes)"

text \<open>Body of the loop over \<^verbatim>\<open>Object.entries(newAttrs)\<close>.\<close>

definition newAttrStep ::
  "(string \<times> string) list \<Rightarrow> string \<times> string \<Rightarrow> Change list \<Rightarrow> Change list" where
  "newAttrStep oldAttrs entry changes =
     (case entry of (key, value) \<Rightarrow>
        if \<not> keyIn key oldAttrs then changes @ [AttrAdded key value] else changes)"

definition detectElementChanges :: "DOMBaseNode \<Rightarrow> DOMBaseNode \<Rightarrow> Change list" where
  "detectElementChanges oldElem newElem =
    (let changes0 = [];
         changes1 = (if tagName oldElem \<noteq> tagName newElem
                     then changes0 @ [TagChanged (tagName oldElem) (tagName newElem)]
                     else changes0);
         oldAttrs = attributes oldElem;
         newAttrs = attributes newElem;
         changes2 = fold (oldAttrStep newAttrs) oldAttrs changes1;
         changes3 = fold (newAttrStep oldAttrs) newAttrs changes2;
         changes4 = (if isVisible oldElem \<noteq> isVisible newElem
                     then changes3 @ [VisibilityChanged (isVisible oldElem) (isVisible newElem)]
                     else changes3);
         changes5 = (if isInteractive oldElem \<noteq> isInteractive newElem
                     then changes4 @
                       [InteractivityChanged (isInteractive oldElem) (isInteractive newElem)]
                     else changes4)
     in (case (viewportCoordinates oldElem, viewportCoordinates newElem) of
           (Some (ox, oy), Some (nx, ny)) \<Rightarrow>
             if ox \<noteq> nx \<or> oy \<noteq> ny then changes5 @ [PositionChanged ox oy nx ny] else changes5
         | _ \<Rightarrow> changes5))"

section \<open>Tree comparator\<close>

record ModifiedEntry =
  oldElement :: DOMBaseNode
  newElement :: DOMBaseNode
  changes :: "Change list"

record DOMDiffResult =
  added :: "DOMBaseNode list"
  removed :: "DOMBaseNode list"
  modified :: "ModifiedEntry list"
  unchanged :: "DOMBaseNode list"

text \<open>
  The mutable state of one call of \<^verbatim>\<open>compareDOMTrees\<close>: the result under construction and
  the two \<^verbatim>\<open>Set<DOMElementNode>\<close>s, which hold object references, that is, \<open>nid\<close>s.
\<close>

record DiffState =
  result :: DOMDiffResult
  processedOldElements :: "nat set"
  processedNewElements :: "nat set"

definition emptyResult :: DOMDiffResult where
  "emptyResult = \<lparr>added = [], removed = [], modified = [], unchanged = []\<rparr>"

definition initialState :: DiffState where
  "initialState = \<lparr>result = emptyResult, processedOldElements = {}, processedNewElements = {}\<rparr>"

text \<open>
  The inner loop of \<^verbatim>\<open>compareChildNodes\<close> over \<^verbatim>\<open>newElementChildren\<close>; the accumulator is
  \<^verbatim>\<open>(bestMatch, highestScore)\<close>.
\<close>

fun bestMatchLoop ::
  "DOMBaseNode \<Rightarrow> DOMBaseNode list \<Rightarrow> nat set \<Rightarrow> DOMBaseNode option \<times> rat
     \<Rightarrow> DOMBaseNode option \<times> rat" where
  "bestMatchLoop oldChild [] processedNew acc = acc"
| "bestMatchLoop oldChild (newChild # rest) processedNew (bestMatch, highestScore) =
     (if nid newChild \<in> processedNew
      then bestMatchLoop oldChild rest processedNew (bestMatch, highestScore)
      else (let score = calculateSimilarityScore oldChild newChild
            in if score > highestScore
               then bestMatchLoop oldChild rest processedNew (Some newChild, score)
               else bestMatchLoop oldChild rest processedNew (bestMatch, highestScore)))"

definition findBestMatch ::
  "DOMBaseNode \<Rightarrow> DOMBaseNode list \<Rightarrow> nat set \<Rightarrow> DOMBaseNode option \<times> rat" where
  "findBestMatch oldChild newElementChildren processedNew =
     bestMatchLoop oldChild newElementChildren processedNew (None, 0)"

text \<open>
  \<^verbatim>\<open>compareHistoryElementAndDomElement(convertDomElementToHistoryElement(oldNode), newNode)\<close>
  is imported from a module that is not among the sources; the comparator is a parameter
  \<open>identical\<close> of the model.
\<close>

type_synonym comparator = "DOMBaseNode \<Rightarrow> DOMBaseNode \<Rightarrow> bool"

text \<open>
  \<^verbatim>\<open>compareNodes\<close> and \<^verbatim>\<open>compareChildNodes\<close>; \<open>compareChildLoop\<close> is the loop of the latter
  over \<^verbatim>\<open>oldElementChildren\<close>.
\<close>

function compareNodes :: "comparator \<Rightarrow> DOMBaseNode \<Rightarrow> DOMBaseNode \<Rightarrow> DiffState \<Rightarrow> DiffState"
  and compareChildNodes ::
    "comparator \<Rightarrow> DOMBaseNode \<Rightarrow> DOMBaseNode \<Rightarrow> DiffState \<Rightarrow> DiffState"
  and compareChildLoop ::
    "comparator \<Rightarrow> DOMBaseNode list \<Rightarrow> DOMBaseNode list \<Rightarrow> DiffState \<Rightarrow> DiffState"
where
  "compareNodes identical oldNode newNode st =
     (let st1 = st\<lparr>processedOldElements := insert (nid oldNode) (processedOldElements st),
                    processedNewElements := insert (nid newNode) (processedNewElements st)\<rparr>
      in if identical oldNode newNode
         then compareChildNodes identical oldNode newNode
                (st1\<lparr>result := (result st1)\<lparr>unchanged := unchanged (result st1) @ [oldNode]\<rparr>\<rparr>)
         else (let changes = detectElementChanges oldNode newNode
               in compareChildNodes identical oldNode newNode
                    (st1\<lparr>result := (result st1)\<lparr>modified := modified (result st1) @
                       [\<lparr>oldElement = oldNode, newElement = newNode, changes = changes\<rparr>]\<rparr>\<rparr>)))"
| "compareChildNodes identical oldParent newParent st =
     compareChildLoop identical (elementChildren oldParent) (elementChildren newParent) st"
| "compareChildLoop identical [] newElementChildren st = st"
| "compareChildLoop identical (oldChild # rest) newElementChildren st =
     (if nid oldChild \<in> processedOldElements st
      then compareChildLoop identical rest newElementChildren st
      else (case findBestMatch oldChild newElementChildren (processedNewElements st) of
              (Some bestMatch, highestScore) \<Rightarrow>
                if highestScore > 7 / 10
                then compareChildLoop identical rest newElementChildren
                       (compareNodes identical oldChild bestMatch st)
                else compareChildLoop identical rest newElementChildren st
            | (None, highestScore) \<Rightarrow>
                compareChildLoop identical rest newElementChildren st))"
  by pat_completeness auto
termination
proof -
  have "size_list size (filter P xs) \<le> size_list size xs" for P and xs :: "DOMBaseNode list"
    by (induction xs) auto
  moreover have "size_list size (children n) \<le> size n" for n
    by (cases n) auto
  ultimately have smaller: "size_list size (elementChildren n) \<le> size n" for n
    unfolding elementChildren_def by (meson le_trans)
  show ?thesis
    by (relation "measure (\<lambda>x. case x of
          Inl (i, oldNode, n, s) \<Rightarrow> 3 * size oldNode + 2
        | Inr (Inl (i, oldParent, n, s)) \<Rightarrow> 3 * size oldParent + 1
        | Inr (Inr (i, olds, n, s)) \<Rightarrow> 3 * size_list size olds)")
      (use smaller in \<open>auto simp: less_Suc_eq_le\<close>)
qed

text \<open>
  \<^verbatim>\<open>findRemovedElements\<close>; the state is the pair of the \<^verbatim>\<open>Set\<close> and the result.
  \<open>findRemovedLoop\<close> is its loop over \<^verbatim>\<open>node.children\<close>.
\<close>

function findRemovedElements ::
    "DOMBaseNode \<Rightarrow> nat set \<times> DOMDiffResult \<Rightarrow> nat set \<times> DOMDiffResult"
  and findRemovedLoop ::
    "DOMBaseNode list \<Rightarrow> nat set \<times> DOMDiffResult \<Rightarrow> nat set \<times> DOMDiffResult"
where
  "findRemovedElements node (processedElements, res) =
     findRemovedLoop (children node)
       (if nid node \<notin> processedElements
        then (insert (nid node) processedElements, res\<lparr>removed := removed res @ [node]\<rparr>)
        else (processedElements, res))"
| "findRemovedLoop [] st = st"
| "findRemovedLoop (child # rest) st =
     (if isElement child then findRemovedLoop rest (findRemovedElements child st)
      else findRemovedLoop rest st)"
  by pat_completeness auto
termination
proof -
  have smaller: "size_list size (children n) \<le> size n" for n :: DOMBaseNode
    by (cases n) auto
  show ?thesis
    by (relation "measure (\<lambda>x. case x of
          Inl (node, s) \<Rightarrow> 2 * size node + 1
        | Inr (nodes, s) \<Rightarrow> 2 * size_list size nodes)")
      (use smaller in \<open>auto simp: less_Suc_eq_le\<close>)
qed

text \<open>\<^verbatim>\<open>findAddedElements\<close>, the same walk over the new tree.\<close>

function findAddedElements ::
    "DOMBaseNode \<Rightarrow> nat set \<times> DOMDiffResult \<Rightarrow> nat set \<times> DOMDiffResult"
  and findAddedLoop ::
    "DOMBaseNode list \<Rightarrow> nat set \<times> DOMDiffResult \<Rightarrow> nat set \<times> DOMDiffResult"
where
  "findAddedElements node (processedElements, res) =
     findAddedLoop (children node)
       (if nid node \<notin> processedElements
        then (insert (nid node) processedElements, res\<lparr>added := added res @ [node]\<rparr>)
        else (processedElements, res))"
| "findAddedLoop [] st = st"
| "findAddedLoop (child # rest) st =
     (if isElement child then findAddedLoop rest (findAddedElements child st)
      else findAddedLoop rest st)"
  by pat_completeness auto
termination
proof -
  have smaller: "size_list size (children n) \<le> size n" for n :: DOMBaseNode
    by (cases n) auto
  show ?thesis
    by (relation "measure (\<lambda>x. case x of
          Inl (node, s) \<Rightarrow> 2 * size node + 1
        | Inr (nodes, s) \<Rightarrow> 2 * size_list size nodes)")
      (use smaller in \<open>auto simp: less_Suc_eq_le\<close>)
qed

definition compareDOMTrees :: "comparator \<Rightarrow> DOMBaseNode \<Rightarrow> DOMBaseNode \<Rightarrow> DOMDiffResult" where
  "compareDOMTrees identical oldTree newTree =
    (let st = compareNodes identical oldTree newTree initialState;
         afterRemoved = findRemovedElements oldTree (processedOldElements st, result st);
         afterAdded = findAddedElements newTree (processedNewElements st, snd afterRemoved)
     in snd afterAdded)"

section \<open>Delayed comparison driver\<close>

text \<open>
  The effects of \<^verbatim>\<open>trackDOMChanges\<close> are a trace of events: the two \<^verbatim>\<open>console.log\<close> calls,
  the \<^verbatim>\<open>setTimeout\<close> wait and the call of \<^verbatim>\<open>getCurrentTree\<close>. The provider is a function of
  the events that happened before its call; it yields a tree (the promise resolves) or a
  failure (the promise rejects, \<open>Inl\<close>).
\<close>

datatype Event =
  LogInitial rat
| Wait rat
| CallGetCurrentTree
| LogCompare

definition trackDOMChanges ::
  "comparator \<Rightarrow> DOMBaseNode \<Rightarrow> rat \<Rightarrow> (Event list \<Rightarrow> 'e + DOMBaseNode) \<Rightarrow> Event list
     \<Rightarrow> Event list \<times> ('e + DOMDiffResult)" where
  "trackDOMChanges identical initialTree delayMs getCurrentTree trace0 =
    (let trace1 = trace0 @ [LogInitial delayMs];
         trace2 = trace1 @ [Wait delayMs]
     in (case getCurrentTree trace2 of
           Inl failure \<Rightarrow> (trace2 @ [CallGetCurrentTree], Inl failure)
         | Inr currentTree \<Rightarrow>
             (trace2 @ [CallGetCurrentTree, LogCompare],
              Inr (compareDOMTrees identical initialTree currentTree))))"

section \<open>Notions used to state the properties\<close>

text \<open>The node with the attribute \<open>key\<close> absent.\<close>

definition withoutAttr :: "string \<Rightarrow> DOMBaseNode \<Rightarrow> DOMBaseNode" where
  "withoutAttr key n =
     (case n of
        DOMElementNode i t x a cs v ia vc \<Rightarrow>
          DOMElementNode i t x (filter (\<lambda>entry. fst entry \<noteq> key) a) cs v ia vc
      | DOMTextNode s \<Rightarrow> DOMTextNode s)"












text \<open>
  The element nodes reachable from a root, in document order: the nodes that
  \<^verbatim>\<open>findRemovedElements\<close> and \<^verbatim>\<open>findAddedElements\<close> visit.
\<close>

function elements :: "DOMBaseNode \<Rightarrow> DOMBaseNode list"
  and elementsList :: "DOMBaseNode list \<Rightarrow> DOMBaseNode list"
where
  "elements node = node # elementsList (children node)"
| "elementsList [] = []"
| "elementsList (child # rest) =
     (if isElement child then elements child @ elementsList rest else elementsList rest)"
  by pat_completeness auto
termination
proof -
  have smaller: "size_list size (children n) \<le> size n" for n :: DOMBaseNode
    by (cases n) auto
  show ?thesis
    by (relation "measure (\<lambda>x. case x of
          Inl node \<Rightarrow> 2 * size node + 1
        | Inr nodes \<Rightarrow> 2 * size_list size nodes)")
      (use smaller in \<open>auto simp: less_Suc_eq_le\<close>)
qed

text \<open>
  What one call of \<^verbatim>\<open>compareNodes\<close> does to the state before it turns to the children.
\<close>

definition recordPair :: "comparator \<Rightarrow> DOMBaseNode \<Rightarrow> DOMBaseNode \<Rightarrow> DiffState \<Rightarrow> DiffState" where
  "recordPair identical oldNode newNode st =
    (let st1 = st\<lparr>processedOldElements := insert (nid oldNode) (processedOldElements st),
                   processedNewElements := insert (nid newNode) (processedNewElements st)\<rparr>;
         res = result st1
     in if identical oldNode newNode
        then st1\<lparr>result := res\<lparr>unchanged := unchanged res @ [oldNode]\<rparr>\<rparr>
        else st1\<lparr>result := res\<lparr>modified := modified res @
               [\<lparr>oldElement = oldNode, newElement = newNode,
                 changes = detectElementChanges oldNode newNode\<rparr>]\<rparr>\<rparr>)"

text \<open>The state after the given pairs have been recorded one after the other.\<close>

definition recordAll ::
  "comparator \<Rightarrow> (DOMBaseNode \<times> DOMBaseNode) list \<Rightarrow> DiffState \<Rightarrow> DiffState" where
  "recordAll identical ps st = fold (\<lambda>p. recordPair identical (fst p) (snd p)) ps st"

text \<open>
  Pairs drawn from two lists of nodes, no object twice on either side, none of them in the
  given sets of processed objects.
\<close>

definition freshPairs ::
  "(DOMBaseNode \<times> DOMBaseNode) list \<Rightarrow> DOMBaseNode list \<Rightarrow> DOMBaseNode list
     \<Rightarrow> nat set \<Rightarrow> nat set \<Rightarrow> bool" where
  "freshPairs ps olds news PO PN \<longleftrightarrow>
     fst ` set ps \<subseteq> set olds \<and> snd ` set ps \<subseteq> set news
     \<and> distinct (map (nid \<circ> fst) ps) \<and> distinct (map (nid \<circ> snd) ps)
     \<and> (\<forall>p \<in> set ps. nid (fst p) \<notin> PO \<and> nid (snd p) \<notin> PN)"

text \<open>The \<^verbatim>\<open>modified\<close> entry that \<^verbatim>\<open>compareNodes\<close> pushes for a pair.\<close>

definition pairEntry :: "DOMBaseNode \<times> DOMBaseNode \<Rightarrow> ModifiedEntry" where
  "pairEntry p = \<lparr>oldElement = fst p, newElement = snd p,
                   changes = detectElementChanges (fst p) (snd p)\<rparr>"

declare elements.simps [simp del]

declare compareNodes.simps [simp del]

text \<open>What \<^verbatim>\<open>findRemovedElements\<close> does at one node, before it descends.\<close>

definition visitRemoved :: "DOMBaseNode \<Rightarrow> nat set \<times> DOMDiffResult \<Rightarrow> nat set \<times> DOMDiffResult" where
  "visitRemoved node st =
     (if nid node \<notin> fst st
      then (insert (nid node) (fst st), (snd st)\<lparr>removed := removed (snd st) @ [node]\<rparr>)
      else st)"

text \<open>What \<^verbatim>\<open>findAddedElements\<close> does at one node, before it descends.\<close>

definition visitAdded :: "DOMBaseNode \<Rightarrow> nat set \<times> DOMDiffResult \<Rightarrow> nat set \<times> DOMDiffResult" where
  "visitAdded node st =
     (if nid node \<notin> fst st
      then (insert (nid node) (fst st), (snd st)\<lparr>added := added (snd st) @ [node]\<rparr>)
      else st)"

text \<open>An element as the test scripts of the source build it: visible, no geometry.\<close>

definition el :: "nat \<Rightarrow> string \<Rightarrow> string \<Rightarrow> (string \<times> string) list \<Rightarrow> DOMBaseNode list \<Rightarrow> DOMBaseNode" where
  "el i t x a cs = DOMElementNode i t x a cs True False None"






text \<open>
  One comparator, for the examples: equal xpath and equal attributes. It gives the answers
  that the test script in the source expects of
  \<^verbatim>\<open>compareHistoryElementAndDomElement\<close> (an element against itself: true; two elements
  of different id and xpath: false).
\<close>

definition sameXPathAndAttributes :: comparator where
  "sameXPathAndAttributes oldNode newNode =
     (xpath oldNode = xpath newNode \<and> attributes oldNode = attributes newNode)"

text \<open>One element before and after it is hidden.\<close>

definition shownNode :: DOMBaseNode where
  "shownNode = DOMElementNode 1 ''div'' ''/html/body/div'' [(''id'', ''test'')] [] True False None"

definition hiddenNode :: DOMBaseNode where
  "hiddenNode = DOMElementNode 2 ''div'' ''/html/body/div'' [(''id'', ''test'')] [] False False None"


text \<open>The element of the first test case of the source, and one with empty attributes.\<close>

definition fullNode :: DOMBaseNode where
  "fullNode = el 1 ''div'' ''/html/body/div'' [(''id'', ''test''), (''class'', ''container'')] []"

definition blankNode :: DOMBaseNode where
  "blankNode = el 1 ''div'' ''/html/body/div'' [(''id'', ''''), (''class'', '''')] []"

text \<open>Two roots that have nothing in common.\<close>

definition divRoot :: DOMBaseNode where
  "divRoot = el 1 ''div'' ''/div'' [(''id'', ''a'')] []"

definition spanRoot :: DOMBaseNode where
  "spanRoot = el 2 ''span'' ''/span'' [(''id'', ''b'')] []"

text \<open>
  Two small snapshots of a list: the second entry disappears, the first gains an attribute,
  a \<^verbatim>\<open>span\<close> appears. The old snapshot has a text node between its entries.
\<close>

definition listBefore :: DOMBaseNode where
  "listBefore = el 0 ''ul'' ''/ul'' []
     [el 1 ''li'' ''/ul/li[1]'' [(''id'', ''item-1'')] [],
      DOMTextNode ''gap'',
      el 2 ''li'' ''/ul/li[2]'' [(''id'', ''item-2'')] []]"

definition listAfter :: DOMBaseNode where
  "listAfter = el 10 ''ul'' ''/ul'' []
     [el 11 ''li'' ''/ul/li[1]'' [(''id'', ''item-1''), (''data-modified'', ''true'')] [],
      el 12 ''span'' ''/ul/span'' [(''id'', ''new-element'')] []]"

text \<open>Every node of a list paired with itself.\<close>

definition paired :: "DOMBaseNode list \<Rightarrow> (DOMBaseNode \<times> DOMBaseNode) list" where
  "paired xs = map (\<lambda>n. (n, n)) xs"


section \<open>Auxiliary lemmas\<close>

lemma splitWs_nonempty: "splitWs s \<noteq> []"
  by (induction s) (auto split: list.splits)

lemma classRatio_bounds:
  assumes "c \<le> m"
  shows "0 \<le> rat_of_nat c / rat_of_nat m" and "rat_of_nat c / rat_of_nat m \<le> 1"
  using assms by (auto simp: divide_le_eq_1)

lemma common_le_max: "length (filter P xs) \<le> max (length xs) n"
  by (meson length_filter_le max.coboundedI1)

lemma similarityAccum_snd: "snd (similarityAccum a b) = 11"
  by (simp add: similarityAccum_def Let_def)

lemma similarityAccum_fst_bounds:
  "0 \<le> fst (similarityAccum a b)" "fst (similarityAccum a b) \<le> 11"
proof -
  define r where "r =
      rat_of_nat (length (filter
        (\<lambda>cls. cls \<in> set (remdups (splitWs (the (getAttr (attributes b) ''class'')))))
        (remdups (splitWs (the (getAttr (attributes a) ''class''))))))
      / rat_of_nat (max (length (remdups (splitWs (the (getAttr (attributes a) ''class'')))))
          (length (remdups (splitWs (the (getAttr (attributes b) ''class''))))))"
  have r: "0 \<le> r" "r \<le> 1"
    unfolding r_def using classRatio_bounds [OF common_le_max] by blast+
  show "0 \<le> fst (similarityAccum a b)" "fst (similarityAccum a b) \<le> 11"
    using r unfolding similarityAccum_def Let_def r_def by (auto split: if_splits)
qed

lemma score_eq: "calculateSimilarityScore a b = fst (similarityAccum a b) / 11"
  using similarityAccum_snd [of a b]
  by (cases "similarityAccum a b") (simp add: calculateSimilarityScore_def)

lemma self_common: "length (filter (\<lambda>cls. cls \<in> set xs) xs) = length xs"
  by (induction xs) auto

lemma score_self_full:
  assumes "truthy (getAttr (attributes a) ''id'')" "truthy (getAttr (attributes a) ''class'')"
  shows "calculateSimilarityScore a a = 1"
proof -
  have "remdups (splitWs s) \<noteq> []" for s by (simp add: splitWs_nonempty)
  then show ?thesis
    using assms unfolding score_eq similarityAccum_def Let_def
    by (simp add: self_common)
qed

lemma getAttr_filter:
  "getAttr (filter (\<lambda>entry. fst entry \<noteq> key) a) k = (if k = key then None else getAttr a k)"
  unfolding getAttr_def by (induction a) auto

lemma withoutAttr_sel:
  "tagName (withoutAttr key n) = tagName n" "xpath (withoutAttr key n) = xpath n"
  by (cases n; simp add: withoutAttr_def)+

lemma withoutAttr_getAttr:
  "isElement n \<Longrightarrow> getAttr (attributes (withoutAttr key n)) k = (if k = key then None else getAttr (attributes n) k)"
  by (cases n) (simp_all add: withoutAttr_def getAttr_filter)

lemma accum_id_absent_l:
  assumes "isElement a" "getAttr (attributes a) ''id'' = Some []"
  shows "similarityAccum a b = similarityAccum (withoutAttr ''id'' a) b"
  using assms unfolding similarityAccum_def Let_def
  by (simp add: withoutAttr_sel withoutAttr_getAttr)

lemma accum_id_absent_r:
  assumes "isElement a" "getAttr (attributes a) ''id'' = Some []"
  shows "similarityAccum b a = similarityAccum b (withoutAttr ''id'' a)"
  using assms unfolding similarityAccum_def Let_def
  by (simp add: withoutAttr_sel withoutAttr_getAttr)

lemma accum_class_absent_l:
  assumes "isElement a" "getAttr (attributes a) ''class'' = Some []"
  shows "similarityAccum a b = similarityAccum (withoutAttr ''class'' a) b"
  using assms unfolding similarityAccum_def Let_def
  by (simp add: withoutAttr_sel withoutAttr_getAttr)

lemma accum_class_absent_r:
  assumes "isElement a" "getAttr (attributes a) ''class'' = Some []"
  shows "similarityAccum b a = similarityAccum b (withoutAttr ''class'' a)"
  using assms unfolding similarityAccum_def Let_def
  by (simp add: withoutAttr_sel withoutAttr_getAttr)

lemma accum_no_id:
  assumes "\<not> truthy (getAttr (attributes a) ''id'') \<or> \<not> truthy (getAttr (attributes b) ''id'')"
  shows "fst (similarityAccum a b) \<le> 7"
proof -
  define r where "r =
      rat_of_nat (length (filter
        (\<lambda>cls. cls \<in> set (remdups (splitWs (the (getAttr (attributes b) ''class'')))))
        (remdups (splitWs (the (getAttr (attributes a) ''class''))))))
      / rat_of_nat (max (length (remdups (splitWs (the (getAttr (attributes a) ''class'')))))
          (length (remdups (splitWs (the (getAttr (attributes b) ''class''))))))"
  have "length (filter P xs) \<le> max (length xs) n" for P n and xs :: "string list"
    by (meson length_filter_le max.coboundedI1)
  then have r: "r \<le> 1"
    unfolding r_def by (auto simp: divide_le_eq_1)
  show ?thesis
    using r assms unfolding similarityAccum_def Let_def r_def by (auto split: if_splits)
qed

lemma accum_no_class:
  assumes "\<not> truthy (getAttr (attributes a) ''class'') \<or> \<not> truthy (getAttr (attributes b) ''class'')"
  shows "fst (similarityAccum a b) =
     (if tagName a = tagName b then 3 else 0) + (if xpath a = xpath b then 2 else 0)
     + (if truthy (getAttr (attributes a) ''id'') \<and> truthy (getAttr (attributes b) ''id'')
           \<and> getAttr (attributes a) ''id'' = getAttr (attributes b) ''id'' then 4 else 0)"
  using assms unfolding similarityAccum_def Let_def by auto






lemma bestMatchLoop_acc:
  "bestMatchLoop oldChild news pn (bm0, h0) = (bm, hs) \<Longrightarrow>
     ((bm, hs) = (bm0, h0) \<and>
        (\<forall>c \<in> set (filter (\<lambda>c. nid c \<notin> pn) news). calculateSimilarityScore oldChild c \<le> h0))
   \<or> (\<exists>b pre post. bm = Some b \<and> filter (\<lambda>c. nid c \<notin> pn) news = pre @ b # post
         \<and> hs = calculateSimilarityScore oldChild b \<and> h0 < hs
         \<and> (\<forall>c \<in> set pre. calculateSimilarityScore oldChild c < hs)
         \<and> (\<forall>c \<in> set post. calculateSimilarityScore oldChild c \<le> hs))"
proof (induction news arbitrary: bm0 h0)
  case Nil
  then show ?case by simp
next
  case (Cons n news)
  show ?case
  proof (cases "nid n \<in> pn")
    case True
    with Cons show ?thesis by simp
  next
    case False
    show ?thesis
    proof (cases "calculateSimilarityScore oldChild n > h0")
      case True
      with False Cons.prems
      have "bestMatchLoop oldChild news pn (Some n, calculateSimilarityScore oldChild n) = (bm, hs)"
        by (simp add: Let_def)
      from Cons.IH [OF this] show ?thesis
      proof (elim disjE conjE exE)
        assume "(bm, hs) = (Some n, calculateSimilarityScore oldChild n)"
          and "\<forall>c\<in>set (filter (\<lambda>c. nid c \<notin> pn) news). calculateSimilarityScore oldChild c \<le> calculateSimilarityScore oldChild n"
        then have "bm = Some n \<and> filter (\<lambda>c. nid c \<notin> pn) (n # news) = [] @ n # filter (\<lambda>c. nid c \<notin> pn) news
          \<and> hs = calculateSimilarityScore oldChild n \<and> h0 < hs
          \<and> (\<forall>c\<in>set []. calculateSimilarityScore oldChild c < hs)
          \<and> (\<forall>c\<in>set (filter (\<lambda>c. nid c \<notin> pn) news). calculateSimilarityScore oldChild c \<le> hs)"
          using False True by simp
        then show ?thesis by blast
      next
        fix b pre post
        assume a: "bm = Some b" "filter (\<lambda>c. nid c \<notin> pn) news = pre @ b # post"
          "hs = calculateSimilarityScore oldChild b" "calculateSimilarityScore oldChild n < hs"
          "\<forall>c\<in>set pre. calculateSimilarityScore oldChild c < hs"
          "\<forall>c\<in>set post. calculateSimilarityScore oldChild c \<le> hs"
        then have "bm = Some b \<and> filter (\<lambda>c. nid c \<notin> pn) (n # news) = (n # pre) @ b # post
          \<and> hs = calculateSimilarityScore oldChild b \<and> h0 < hs
          \<and> (\<forall>c\<in>set (n # pre). calculateSimilarityScore oldChild c < hs)
          \<and> (\<forall>c\<in>set post. calculateSimilarityScore oldChild c \<le> hs)"
          using False True by auto
        then show ?thesis by blast
      qed
    next
      case le: False
      with False Cons.prems
      have "bestMatchLoop oldChild news pn (bm0, h0) = (bm, hs)"
        by (simp add: Let_def)
      from Cons.IH [OF this] show ?thesis
      proof (elim disjE conjE exE)
        assume "(bm, hs) = (bm0, h0)"
          and "\<forall>c\<in>set (filter (\<lambda>c. nid c \<notin> pn) news). calculateSimilarityScore oldChild c \<le> h0"
        then show ?thesis using le False by auto
      next
        fix b pre post
        assume a: "bm = Some b" "filter (\<lambda>c. nid c \<notin> pn) news = pre @ b # post"
          "hs = calculateSimilarityScore oldChild b" "h0 < hs"
          "\<forall>c\<in>set pre. calculateSimilarityScore oldChild c < hs"
          "\<forall>c\<in>set post. calculateSimilarityScore oldChild c \<le> hs"
        then have "bm = Some b \<and> filter (\<lambda>c. nid c \<notin> pn) (n # news) = (n # pre) @ b # post
          \<and> hs = calculateSimilarityScore oldChild b \<and> h0 < hs
          \<and> (\<forall>c\<in>set (n # pre). calculateSimilarityScore oldChild c < hs)
          \<and> (\<forall>c\<in>set post. calculateSimilarityScore oldChild c \<le> hs)"
          using False le by auto
        then show ?thesis by blast
      qed
    qed
  qed
qed

lemma compareNodes_recordPair [simp]:
  "compareNodes identical oldNode newNode st =
     compareChildNodes identical oldNode newNode (recordPair identical oldNode newNode st)"
  by (simp add: compareNodes.simps recordPair_def Let_def del: compareChildNodes.simps)

lemma compare_induct [case_names pair children empty step]:
  fixes P :: "comparator \<Rightarrow> DOMBaseNode \<Rightarrow> DOMBaseNode \<Rightarrow> DiffState \<Rightarrow> bool"
    and Q :: "comparator \<Rightarrow> DOMBaseNode \<Rightarrow> DOMBaseNode \<Rightarrow> DiffState \<Rightarrow> bool"
    and R :: "comparator \<Rightarrow> DOMBaseNode list \<Rightarrow> DOMBaseNode list \<Rightarrow> DiffState \<Rightarrow> bool"
  assumes pair: "\<And>identical oldNode newNode st.
      Q identical oldNode newNode (recordPair identical oldNode newNode st) \<Longrightarrow>
      P identical oldNode newNode st"
    and children: "\<And>identical oldParent newParent st.
      R identical (elementChildren oldParent) (elementChildren newParent) st \<Longrightarrow>
      Q identical oldParent newParent st"
    and empty: "\<And>identical newElementChildren st. R identical [] newElementChildren st"
    and step: "\<And>identical oldChild rest newElementChildren st.
      \<lbrakk>nid oldChild \<in> processedOldElements st \<Longrightarrow> R identical rest newElementChildren st;
       \<And>x y. \<lbrakk>nid oldChild \<notin> processedOldElements st;
              (x, y) = findBestMatch oldChild newElementChildren (processedNewElements st);
              x = None\<rbrakk>
             \<Longrightarrow> R identical rest newElementChildren st;
       \<And>x y x2. \<lbrakk>nid oldChild \<notin> processedOldElements st;
              (x, y) = findBestMatch oldChild newElementChildren (processedNewElements st);
              x = Some x2; 7 / 10 < y\<rbrakk>
             \<Longrightarrow> P identical oldChild x2 st;
       \<And>x y x2. \<lbrakk>nid oldChild \<notin> processedOldElements st;
              (x, y) = findBestMatch oldChild newElementChildren (processedNewElements st);
              x = Some x2; 7 / 10 < y\<rbrakk>
             \<Longrightarrow> R identical rest newElementChildren (compareNodes identical oldChild x2 st);
       \<And>x y x2. \<lbrakk>nid oldChild \<notin> processedOldElements st;
              (x, y) = findBestMatch oldChild newElementChildren (processedNewElements st);
              x = Some x2; \<not> 7 / 10 < y\<rbrakk>
             \<Longrightarrow> R identical rest newElementChildren st\<rbrakk>
      \<Longrightarrow> R identical (oldChild # rest) newElementChildren st"
  shows "P identical oldNode newNode st"
    and "Q identical oldParent newParent st'"
    and "R identical olds news st''"
proof (induction identical oldNode newNode st and identical oldParent newParent st'
    and identical olds news st'' rule: compareNodes_compareChildNodes_compareChildLoop.induct)
  case (1 identical oldNode newNode st)
  show ?case
  proof (rule pair, cases "identical oldNode newNode")
    case True
    from 1(1) [OF refl True] show "Q identical oldNode newNode (recordPair identical oldNode newNode st)"
      by (simp add: recordPair_def Let_def True)
  next
    case False
    from 1(2) [OF refl False refl]
    show "Q identical oldNode newNode (recordPair identical oldNode newNode st)"
      by (simp add: recordPair_def Let_def False)
  qed
next
  case (2 identical oldParent newParent st)
  then show ?case by (rule children)
next
  case (3 identical newElementChildren st)
  show ?case by (rule empty)
next
  case (4 identical oldChild rest newElementChildren st)
  show ?case
    by (rule step) (use 4 in \<open>blast+\<close>)
qed

lemma recordAll_Nil [simp]: "recordAll identical [] st = st"
  by (simp add: recordAll_def)

lemma recordAll_Cons [simp]:
  "recordAll identical (p # ps) st = recordAll identical ps (recordPair identical (fst p) (snd p) st)"
  by (simp add: recordAll_def)

lemma recordAll_append:
  "recordAll identical (ps @ qs) st = recordAll identical qs (recordAll identical ps st)"
  by (simp add: recordAll_def)

lemma recordPair_processed [simp]:
  "processedOldElements (recordPair identical a b st) = insert (nid a) (processedOldElements st)"
  "processedNewElements (recordPair identical a b st) = insert (nid b) (processedNewElements st)"
  by (simp_all add: recordPair_def Let_def)

lemma recordPair_result:
  "unchanged (result (recordPair identical a b st)) =
     unchanged (result st) @ (if identical a b then [a] else [])"
  "modified (result (recordPair identical a b st)) =
     modified (result st) @ (if identical a b then [] else [pairEntry (a, b)])"
  "added (result (recordPair identical a b st)) = added (result st)"
  "removed (result (recordPair identical a b st)) = removed (result st)"
  by (simp_all add: recordPair_def Let_def pairEntry_def)

lemma recordAll_processed:
  "processedOldElements (recordAll identical ps st) =
     processedOldElements st \<union> (nid \<circ> fst) ` set ps"
  "processedNewElements (recordAll identical ps st) =
     processedNewElements st \<union> (nid \<circ> snd) ` set ps"
  by (induction ps arbitrary: st) auto

lemma recordAll_result:
  "unchanged (result (recordAll identical ps st)) =
     unchanged (result st) @ map fst (filter (\<lambda>p. identical (fst p) (snd p)) ps)"
  "modified (result (recordAll identical ps st)) =
     modified (result st) @ map pairEntry (filter (\<lambda>p. \<not> identical (fst p) (snd p)) ps)"
  "added (result (recordAll identical ps st)) = added (result st)"
  "removed (result (recordAll identical ps st)) = removed (result st)"
  by (induction ps arbitrary: st) (auto simp: recordPair_result)


lemma elementsList_mem:
  "x \<in> set xs \<Longrightarrow> isElement x \<Longrightarrow> set (elements x) \<subseteq> set (elementsList xs)"
  by (induction xs) auto

lemma elementsList_filter: "elementsList (filter isElement cs) = elementsList cs"
  by (induction cs) auto

lemma elementsList_elementChildren: "elementsList (elementChildren n) = elementsList (children n)"
  by (simp add: elementChildren_def elementsList_filter)

lemma freshPairs_Nil [simp]: "freshPairs [] olds news PO PN"
  by (simp add: freshPairs_def)

lemma freshPairs_step:
  assumes "nid a \<notin> PO" "nid b \<notin> PN"
    and "freshPairs ps1 os1 ns1 (insert (nid a) PO) (insert (nid b) PN)"
    and "freshPairs ps2 os2 ns2 (PO \<union> (nid \<circ> fst) ` set ((a, b) # ps1))
           (PN \<union> (nid \<circ> snd) ` set ((a, b) # ps1))"
    and "insert a (set os1 \<union> set os2) \<subseteq> set olds" "insert b (set ns1 \<union> set ns2) \<subseteq> set news"
  shows "freshPairs ((a, b) # ps1 @ ps2) olds news PO PN"
  using assms unfolding freshPairs_def
  by (auto simp: image_iff) (metis comp_apply fst_conv snd_conv)+

lemma findBestMatch_Some:
  assumes "findBestMatch oldChild news pn = (Some b, y)"
  shows "b \<in> set news" "nid b \<notin> pn" "y = calculateSimilarityScore oldChild b" "0 < y"
proof -
  from bestMatchLoop_acc [OF assms [unfolded findBestMatch_def]]
  obtain pre post where f: "filter (\<lambda>c. nid c \<notin> pn) news = pre @ b # post"
    and y: "y = calculateSimilarityScore oldChild b" "0 < y"
    by auto
  have "b \<in> set (filter (\<lambda>c. nid c \<notin> pn) news)" unfolding f by simp
  then show "b \<in> set news" "nid b \<notin> pn" by auto
  show "y = calculateSimilarityScore oldChild b" "0 < y" by (fact y)+
qed


lemma matched_pairs:
  shows "\<exists>ps. compareNodes identical oldNode newNode st =
              recordAll identical ((oldNode, newNode) # ps) st
          \<and> freshPairs ps (elementsList (children oldNode)) (elementsList (children newNode))
               (insert (nid oldNode) (processedOldElements st))
               (insert (nid newNode) (processedNewElements st))"
    and "\<exists>ps. compareChildNodes identical oldParent newParent st' = recordAll identical ps st'
          \<and> freshPairs ps (elementsList (children oldParent)) (elementsList (children newParent))
               (processedOldElements st') (processedNewElements st')"
    and "(\<forall>c \<in> set olds. isElement c) \<longrightarrow> (\<forall>c \<in> set news. isElement c) \<longrightarrow>
         (\<exists>ps. compareChildLoop identical olds news st'' = recordAll identical ps st''
          \<and> freshPairs ps (elementsList olds) (elementsList news)
               (processedOldElements st'') (processedNewElements st''))"
proof (induction identical oldNode newNode st and identical oldParent newParent st'
    and identical olds news st'' rule: compare_induct)
  case (pair identical oldNode newNode st)
  then show ?case by auto
next
  case (children identical oldParent newParent st)
  then show ?case
    by (simp add: elementsList_elementChildren) (simp add: elementChildren_def)
next
  case (empty identical newElementChildren st)
  show ?case by (auto intro: exI [of _ "[]"])
next
  case (step identical oldChild rest news st)
  show ?case
  proof (intro impI)
    assume el: "\<forall>c\<in>set (oldChild # rest). isElement c" "\<forall>c\<in>set news. isElement c"
    then have elr: "\<forall>c\<in>set rest. isElement c" by simp
    have sub: "set (elementsList rest) \<subseteq> set (elementsList (oldChild # rest))" by auto
    have weaken: "freshPairs ps (elementsList (oldChild # rest)) (elementsList news) PO PN"
      if "freshPairs ps (elementsList rest) (elementsList news) PO PN" for ps PO PN
      using that sub unfolding freshPairs_def by blast
    show "\<exists>ps. compareChildLoop identical (oldChild # rest) news st = recordAll identical ps st \<and>
         freshPairs ps (elementsList (oldChild # rest)) (elementsList news)
           (processedOldElements st) (processedNewElements st)"
    proof (cases "nid oldChild \<in> processedOldElements st")
      case True
      with step(1) elr el(2) weaken show ?thesis by auto
    next
      case False
      obtain x y where xy: "findBestMatch oldChild news (processedNewElements st) = (x, y)"
        by (cases "findBestMatch oldChild news (processedNewElements st)")
      show ?thesis
      proof (cases x)
        case None
        with step(2) [OF False xy [symmetric]] False xy elr el(2) weaken show ?thesis by auto
      next
        case (Some b)
        show ?thesis
        proof (cases "7 / 10 < y")
          case lo: False
          with step(5) [OF False xy [symmetric] Some] False xy Some elr el(2) weaken
          show ?thesis by auto
        next
          case True
          from step(3) [OF False xy [symmetric] Some True]
          obtain ps1 where ps1: "compareNodes identical oldChild b st =
              recordAll identical ((oldChild, b) # ps1) st"
            and f1: "freshPairs ps1 (elementsList (children oldChild)) (elementsList (children b))
               (insert (nid oldChild) (processedOldElements st))
               (insert (nid b) (processedNewElements st))"
            by blast
          from step(4) [OF False xy [symmetric] Some True] elr el(2)
          obtain ps2 where ps2: "compareChildLoop identical rest news (compareNodes identical oldChild b st) =
              recordAll identical ps2 (compareNodes identical oldChild b st)"
            and f2: "freshPairs ps2 (elementsList rest) (elementsList news)
               (processedOldElements (compareNodes identical oldChild b st))
               (processedNewElements (compareNodes identical oldChild b st))"
            by blast
          have b: "b \<in> set news" "nid b \<notin> processedNewElements st"
            using findBestMatch_Some [OF xy [unfolded Some]] by blast+
          have eq: "compareChildLoop identical (oldChild # rest) news st =
              recordAll identical ((oldChild, b) # ps1 @ ps2) st"
            using False xy Some True ps2 ps1
            by (simp add: recordAll_append del: recordAll_Cons)
               (simp add: recordAll_append [symmetric] del: recordAll_Cons)
          have f2': "freshPairs ps2 (elementsList rest) (elementsList news)
              (processedOldElements st \<union> (nid \<circ> fst) ` set ((oldChild, b) # ps1))
              (processedNewElements st \<union> (nid \<circ> snd) ` set ((oldChild, b) # ps1))"
            using f2 unfolding ps1 recordAll_processed .
          have o: "insert oldChild (set (elementsList (children oldChild)) \<union> set (elementsList rest))
              \<subseteq> set (elementsList (oldChild # rest))"
            using el(1) by (auto simp: elements.simps)
          have "set (elements b) \<subseteq> set (elementsList news)"
            using elementsList_mem b(1) el(2) by blast
          then have n: "insert b (set (elementsList (children b)) \<union> set (elementsList news))
              \<subseteq> set (elementsList news)"
            by (auto simp: elements.simps)
          from freshPairs_step [OF False b(2) f1 f2' o n] eq show ?thesis by blast
        qed
      qed
    qed
  qed
qed

lemma findRemoved_fold:
  shows "findRemovedElements node st = fold visitRemoved (elements node) st"
    and "findRemovedLoop nodes st' = fold visitRemoved (elementsList nodes) st'"
proof (induction node st and nodes st' rule: findRemovedElements_findRemovedLoop.induct)
  case (1 node processedElements res)
  then show ?case by (simp add: elements.simps visitRemoved_def)
next
  case (2 st)
  show ?case by simp
next
  case (3 child rest st)
  then show ?case by simp
qed

lemma findAdded_fold:
  shows "findAddedElements node st = fold visitAdded (elements node) st"
    and "findAddedLoop nodes st' = fold visitAdded (elementsList nodes) st'"
proof (induction node st and nodes st' rule: findAddedElements_findAddedLoop.induct)
  case (1 node processedElements res)
  then show ?case by (simp add: elements.simps visitAdded_def)
next
  case (2 st)
  show ?case by simp
next
  case (3 child rest st)
  then show ?case by simp
qed

lemma fold_visitRemoved_fresh:
  "\<exists>ys. snd (fold visitRemoved xs (p, r)) = r\<lparr>removed := removed r @ ys\<rparr>
        \<and> (\<forall>y \<in> set ys. nid y \<notin> p)"
proof (induction xs arbitrary: p r)
  case Nil
  show ?case by (auto intro: exI [of _ "[]"])
next
  case (Cons x xs)
  show ?case
  proof (cases "nid x \<in> p")
    case True
    with Cons [of p r] show ?thesis by (simp add: visitRemoved_def)
  next
    case False
    from Cons [of "insert (nid x) p" "r\<lparr>removed := removed r @ [x]\<rparr>"]
    obtain ys where "snd (fold visitRemoved xs (insert (nid x) p, r\<lparr>removed := removed r @ [x]\<rparr>))
        = r\<lparr>removed := removed r @ [x] @ ys\<rparr>" "\<forall>y\<in>set ys. nid y \<notin> insert (nid x) p"
      by auto
    with False have "snd (fold visitRemoved (x # xs) (p, r)) = r\<lparr>removed := removed r @ (x # ys)\<rparr>
        \<and> (\<forall>y \<in> set (x # ys). nid y \<notin> p)"
      by (simp add: visitRemoved_def)
    then show ?thesis by blast
  qed
qed

lemma fold_visitAdded_fresh:
  "\<exists>ys. snd (fold visitAdded xs (p, r)) = r\<lparr>added := added r @ ys\<rparr>
        \<and> (\<forall>y \<in> set ys. nid y \<notin> p)"
proof (induction xs arbitrary: p r)
  case Nil
  show ?case by (auto intro: exI [of _ "[]"])
next
  case (Cons x xs)
  show ?case
  proof (cases "nid x \<in> p")
    case True
    with Cons [of p r] show ?thesis by (simp add: visitAdded_def)
  next
    case False
    from Cons [of "insert (nid x) p" "r\<lparr>added := added r @ [x]\<rparr>"]
    obtain ys where "snd (fold visitAdded xs (insert (nid x) p, r\<lparr>added := added r @ [x]\<rparr>))
        = r\<lparr>added := added r @ [x] @ ys\<rparr>" "\<forall>y\<in>set ys. nid y \<notin> insert (nid x) p"
      by auto
    with False have "snd (fold visitAdded (x # xs) (p, r)) = r\<lparr>added := added r @ (x # ys)\<rparr>
        \<and> (\<forall>y \<in> set (x # ys). nid y \<notin> p)"
      by (simp add: visitAdded_def)
    then show ?thesis by blast
  qed
qed

lemma fold_visitRemoved_distinct:
  "distinct (map nid xs) \<Longrightarrow>
     snd (fold visitRemoved xs (p, r)) = r\<lparr>removed := removed r @ filter (\<lambda>x. nid x \<notin> p) xs\<rparr>"
proof (induction xs arbitrary: p r)
  case Nil
  show ?case by simp
next
  case (Cons x xs)
  from Cons.prems have "nid x \<notin> nid ` set xs"
    by simp
  then have "nid y \<noteq> nid x" if "y \<in> set xs" for y
    using that by (metis imageI)
  then have "filter (\<lambda>y. nid y \<notin> insert (nid x) p) xs = filter (\<lambda>y. nid y \<notin> p) xs"
    by (intro filter_cong) auto
  with Cons show ?case by (simp add: visitRemoved_def)
qed

lemma fold_visitAdded_distinct:
  "distinct (map nid xs) \<Longrightarrow>
     snd (fold visitAdded xs (p, r)) = r\<lparr>added := added r @ filter (\<lambda>x. nid x \<notin> p) xs\<rparr>"
proof (induction xs arbitrary: p r)
  case Nil
  show ?case by simp
next
  case (Cons x xs)
  from Cons.prems have "nid x \<notin> nid ` set xs"
    by simp
  then have "nid y \<noteq> nid x" if "y \<in> set xs" for y
    using that by (metis imageI)
  then have "filter (\<lambda>y. nid y \<notin> insert (nid x) p) xs = filter (\<lambda>y. nid y \<notin> p) xs"
    by (intro filter_cong) auto
  with Cons show ?case by (simp add: visitAdded_def)
qed

lemma compareDOMTrees_fold:
  "compareDOMTrees identical oldTree newTree =
     snd (fold visitAdded (elements newTree)
       (processedNewElements (compareNodes identical oldTree newTree initialState),
        snd (fold visitRemoved (elements oldTree)
          (processedOldElements (compareNodes identical oldTree newTree initialState),
           result (compareNodes identical oldTree newTree initialState)))))"
  by (simp add: compareDOMTrees_def Let_def findRemoved_fold findAdded_fold)

lemma mset_by_nid:
  assumes "distinct (map nid E)" "set xs \<subseteq> set E" "distinct (map nid xs)"
  shows "mset xs = mset (filter (\<lambda>x. nid x \<in> nid ` set xs) E)"
proof -
  have inj: "inj_on nid (set E)" and dE: "distinct E"
    using assms(1) by (simp_all add: distinct_map)
  have dx: "distinct xs"
    using assms(3) by (simp add: distinct_map)
  have "set xs = set (filter (\<lambda>x. nid x \<in> nid ` set xs) E)"
  proof (intro set_eqI iffI)
    fix x assume "x \<in> set xs"
    with assms(2) show "x \<in> set (filter (\<lambda>x. nid x \<in> nid ` set xs) E)" by auto
  next
    fix e assume "e \<in> set (filter (\<lambda>x. nid x \<in> nid ` set xs) E)"
    then obtain x where e: "e \<in> set E" and x: "x \<in> set xs" "nid e = nid x" by auto
    with assms(2) inj have "e = x" by (meson inj_onD subsetD)
    with x show "e \<in> set xs" by simp
  qed
  with dx dE show ?thesis
    by (metis distinct_filter set_eq_iff_mset_eq_distinct)
qed

lemma mset_split_by_nid:
  assumes "distinct (map nid E)" "set xs \<subseteq> set E" "distinct (map nid xs)"
  shows "mset (filter (\<lambda>x. nid x \<notin> nid ` set xs) E) + mset xs = mset E"
  unfolding mset_by_nid [OF assms] by (simp add: add.commute)

lemma mset_partition_map:
  "mset (map f (filter (\<lambda>p. \<not> P p) qs)) + mset (map f (filter P qs)) = mset (map f qs)"
  by (induction qs) auto

lemma oldElement_pairEntry: "oldElement \<circ> pairEntry = fst"
  by (auto simp: pairEntry_def fun_eq_iff)

lemma newElement_pairEntry: "newElement \<circ> pairEntry = snd"
  by (auto simp: pairEntry_def fun_eq_iff)

lemma list_all2_identical:
  "list_all2 identical (map fst (filter (\<lambda>p. identical (fst p) (snd p)) qs))
     (map snd (filter (\<lambda>p. identical (fst p) (snd p)) qs))"
  by (induction qs) auto

lemma compareDOMTrees_pairs:
  assumes "distinct (map nid (elements oldTree))" "distinct (map nid (elements newTree))"
  shows "\<exists>qs. fst ` set qs \<subseteq> set (elements oldTree) \<and> snd ` set qs \<subseteq> set (elements newTree)
     \<and> distinct (map nid (map fst qs)) \<and> distinct (map nid (map snd qs))
     \<and> hd qs = (oldTree, newTree) \<and> qs \<noteq> []
     \<and> compareDOMTrees identical oldTree newTree =
        \<lparr>added = filter (\<lambda>x. nid x \<notin> nid ` set (map snd qs)) (elements newTree),
         removed = filter (\<lambda>x. nid x \<notin> nid ` set (map fst qs)) (elements oldTree),
         modified = map pairEntry (filter (\<lambda>p. \<not> identical (fst p) (snd p)) qs),
         unchanged = map fst (filter (\<lambda>p. identical (fst p) (snd p)) qs)\<rparr>"
proof -
  obtain ps where ps: "compareNodes identical oldTree newTree initialState =
      recordAll identical ((oldTree, newTree) # ps) initialState"
    and f: "freshPairs ps (elementsList (children oldTree)) (elementsList (children newTree))
               (insert (nid oldTree) (processedOldElements initialState))
               (insert (nid newTree) (processedNewElements initialState))"
    using matched_pairs(1) by blast
  define qs where "qs = (oldTree, newTree) # ps"
  define st where "st = recordAll identical qs initialState"
  have 1: "fst ` set qs \<subseteq> set (elements oldTree)" "snd ` set qs \<subseteq> set (elements newTree)"
    using f unfolding qs_def freshPairs_def by (auto simp: elements.simps)
  have 2: "distinct (map nid (map fst qs))" "distinct (map nid (map snd qs))"
    using f unfolding qs_def freshPairs_def by (auto simp: image_iff)
  have po: "processedOldElements st = nid ` set (map fst qs)"
    and pn: "processedNewElements st = nid ` set (map snd qs)"
    unfolding st_def recordAll_processed by (auto simp: initialState_def)
  have res: "result st =
      \<lparr>added = [], removed = [],
       modified = map pairEntry (filter (\<lambda>p. \<not> identical (fst p) (snd p)) qs),
       unchanged = map fst (filter (\<lambda>p. identical (fst p) (snd p)) qs)\<rparr>"
    unfolding st_def
    by (rule DOMDiffResult.equality)
       (simp_all add: recordAll_result initialState_def emptyResult_def del: recordAll_Cons)
  have "compareDOMTrees identical oldTree newTree =
        \<lparr>added = filter (\<lambda>x. nid x \<notin> nid ` set (map snd qs)) (elements newTree),
         removed = filter (\<lambda>x. nid x \<notin> nid ` set (map fst qs)) (elements oldTree),
         modified = map pairEntry (filter (\<lambda>p. \<not> identical (fst p) (snd p)) qs),
         unchanged = map fst (filter (\<lambda>p. identical (fst p) (snd p)) qs)\<rparr>"
    unfolding compareDOMTrees_fold ps qs_def [symmetric] st_def [symmetric]
      fold_visitRemoved_distinct [OF assms(1)] fold_visitAdded_distinct [OF assms(2)]
    by (simp add: res po pn)
  with 1 2 show ?thesis unfolding qs_def by (intro exI [of _ "(oldTree, newTree) # ps"]) simp
qed






lemma paired_ids [simp]:
  "(nid \<circ> fst) ` set (paired xs) = nid ` set xs"
  "(nid \<circ> snd) ` set (paired xs) = nid ` set xs"
  "(\<lambda>p. nid (fst p)) ` set (paired xs) = nid ` set xs"
  "(\<lambda>p. nid (snd p)) ` set (paired xs) = nid ` set xs"
  by (auto simp: paired_def image_iff)




section \<open>Properties\<close>




text \<open>
  C2 (exactly-once classification). For two trees in which no object occurs twice, the
  old nodes under \<^verbatim>\<open>removed\<close>, \<^verbatim>\<open>modified\<close> (as \<^verbatim>\<open>oldElement\<close>) and \<^verbatim>\<open>unchanged\<close> are, counted
  with multiplicity, exactly the element nodes of the old tree; and there are new nodes, one
  per \<^verbatim>\<open>unchanged\<close> entry and identical to it for the comparator, that together with
  \<^verbatim>\<open>added\<close> and the \<^verbatim>\<open>newElement\<close>s of \<^verbatim>\<open>modified\<close> are exactly the element nodes of the new
  tree.
\<close>

theorem exactly_once_classification:
  assumes "distinct (map nid (elements oldTree))" "distinct (map nid (elements newTree))"
  shows "mset (removed (compareDOMTrees identical oldTree newTree)
              @ map oldElement (modified (compareDOMTrees identical oldTree newTree))
              @ unchanged (compareDOMTrees identical oldTree newTree))
           = mset (elements oldTree)
       \<and> (\<exists>counterparts.
            list_all2 identical (unchanged (compareDOMTrees identical oldTree newTree)) counterparts
          \<and> mset (added (compareDOMTrees identical oldTree newTree)
                  @ map newElement (modified (compareDOMTrees identical oldTree newTree))
                  @ counterparts)
              = mset (elements newTree))"
proof -
  from compareDOMTrees_pairs [OF assms, of identical]
  obtain qs where 1: "set (map fst qs) \<subseteq> set (elements oldTree)"
      "set (map snd qs) \<subseteq> set (elements newTree)"
    and 2: "distinct (map nid (map fst qs))" "distinct (map nid (map snd qs))"
    and r: "compareDOMTrees identical oldTree newTree =
        \<lparr>added = filter (\<lambda>x. nid x \<notin> nid ` set (map snd qs)) (elements newTree),
         removed = filter (\<lambda>x. nid x \<notin> nid ` set (map fst qs)) (elements oldTree),
         modified = map pairEntry (filter (\<lambda>p. \<not> identical (fst p) (snd p)) qs),
         unchanged = map fst (filter (\<lambda>p. identical (fst p) (snd p)) qs)\<rparr>"
    by auto
  let ?I = "\<lambda>p. identical (fst p) (snd p)"
  have old: "mset (removed (compareDOMTrees identical oldTree newTree)
              @ map oldElement (modified (compareDOMTrees identical oldTree newTree))
              @ unchanged (compareDOMTrees identical oldTree newTree))
           = mset (elements oldTree)"
    unfolding r
    using mset_split_by_nid [OF assms(1) 1(1) 2(1)] mset_partition_map [of fst ?I qs]
    by (simp add: oldElement_pairEntry add.assoc)
  have new: "mset (added (compareDOMTrees identical oldTree newTree)
                  @ map newElement (modified (compareDOMTrees identical oldTree newTree))
                  @ map snd (filter ?I qs))
              = mset (elements newTree)"
    unfolding r
    using mset_split_by_nid [OF assms(2) 1(2) 2(2)] mset_partition_map [of snd ?I qs]
    by (simp add: newElement_pairEntry add.assoc)
  have "list_all2 identical (unchanged (compareDOMTrees identical oldTree newTree))
      (map snd (filter ?I qs))"
    unfolding r by (simp add: list_all2_identical)
  with old new show ?thesis by blast
qed

theorem exactly_once_classification_witness:
  "distinct (map nid (elements listBefore)) \<and> distinct (map nid (elements listAfter))
   \<and> mset (removed (compareDOMTrees sameXPathAndAttributes listBefore listAfter)
           @ map oldElement (modified (compareDOMTrees sameXPathAndAttributes listBefore listAfter))
           @ unchanged (compareDOMTrees sameXPathAndAttributes listBefore listAfter))
        = mset (elements listBefore)
   \<and> map nid (removed (compareDOMTrees sameXPathAndAttributes listBefore listAfter)) = [2]
   \<and> map nid (added (compareDOMTrees sameXPathAndAttributes listBefore listAfter)) = [12]"
proof -
  have a: "distinct (map nid (elements listBefore))" by code_simp
  have b: "distinct (map nid (elements listAfter))" by code_simp
  have c: "map nid (removed (compareDOMTrees sameXPathAndAttributes listBefore listAfter)) = [2]"
    by code_simp
  have d: "map nid (added (compareDOMTrees sameXPathAndAttributes listBefore listAfter)) = [12]"
    by code_simp
  from exactly_once_classification [OF a b, of sameXPathAndAttributes] a b c d
  show ?thesis by blast
qed



text \<open>
  C4 (score bounds and normalisation). The total weight is 11 whichever signals fire, the
  score is the accumulated sum divided by it and lies between 0 and 1, and a node with a
  non-empty \<^verbatim>\<open>id\<close> and a non-empty \<^verbatim>\<open>class\<close> attribute scores 1 against itself.
\<close>

theorem score_bounds:
  "snd (similarityAccum a b) = 11
   \<and> calculateSimilarityScore a b = fst (similarityAccum a b) / 11
   \<and> 0 \<le> calculateSimilarityScore a b \<and> calculateSimilarityScore a b \<le> 1
   \<and> (truthy (getAttr (attributes a) ''id'') \<and> truthy (getAttr (attributes a) ''class'')
        \<longrightarrow> calculateSimilarityScore a a = 1)"
  using similarityAccum_snd score_eq similarityAccum_fst_bounds [of a b] score_self_full
  by (simp add: score_eq)

theorem score_bounds_witness:
  "truthy (getAttr (attributes fullNode) ''id'') \<and> truthy (getAttr (attributes fullNode) ''class'')
   \<and> calculateSimilarityScore fullNode fullNode = 1"
proof -
  have h: "truthy (getAttr (attributes fullNode) ''id'') \<and> truthy (getAttr (attributes fullNode) ''class'')"
    by code_simp
  with score_bounds [of fullNode fullNode] show ?thesis by blast
qed







text \<open>
  C7 (driver contract). After the events already in the trace the driver logs, waits for
  \<open>delayMs\<close>, then calls the provider, once; if the provider yields a tree the result is the
  comparator's result on the initial and the current tree, and if it fails the driver fails
  with the same failure and does nothing more.
\<close>

theorem driver_contract:
  "(getCurrentTree (trace0 @ [LogInitial delayMs, Wait delayMs]) = Inr currentTree \<longrightarrow>
      trackDOMChanges identical initialTree delayMs getCurrentTree trace0 =
        (trace0 @ [LogInitial delayMs, Wait delayMs, CallGetCurrentTree, LogCompare],
         Inr (compareDOMTrees identical initialTree currentTree)))
   \<and> (getCurrentTree (trace0 @ [LogInitial delayMs, Wait delayMs]) = Inl failure \<longrightarrow>
      trackDOMChanges identical initialTree delayMs getCurrentTree trace0 =
        (trace0 @ [LogInitial delayMs, Wait delayMs, CallGetCurrentTree], Inl failure))
   \<and> (\<exists>after. fst (trackDOMChanges identical initialTree delayMs getCurrentTree trace0) =
         trace0 @ [LogInitial delayMs, Wait delayMs, CallGetCurrentTree] @ after
       \<and> CallGetCurrentTree \<notin> set after \<and> (\<forall>d. Wait d \<notin> set after))"
  by (cases "getCurrentTree (trace0 @ [LogInitial delayMs, Wait delayMs])")
     (simp_all add: trackDOMChanges_def Let_def)

theorem driver_contract_witness:
  "trackDOMChanges sameXPathAndAttributes shownNode 10000 (\<lambda>trace. Inl ''no page'') [] =
     ([LogInitial 10000, Wait 10000, CallGetCurrentTree], Inl ''no page'')
   \<and> trackDOMChanges sameXPathAndAttributes shownNode 10000
       (\<lambda>trace. (Inr hiddenNode :: string + DOMBaseNode)) [] =
     ([LogInitial 10000, Wait 10000, CallGetCurrentTree, LogCompare],
      Inr (compareDOMTrees sameXPathAndAttributes shownNode hiddenNode))"
  using driver_contract [of "\<lambda>trace. Inl ''no page''" "[]" 10000 hiddenNode
      sameXPathAndAttributes shownNode "''no page''"]
    driver_contract [of "\<lambda>trace. (Inr hiddenNode :: string + DOMBaseNode)" "[]" 10000 hiddenNode
      sameXPathAndAttributes shownNode "''no page''"]
  by simp

text \<open>
  C8 (the roots are a forced match). Whatever the two roots look like, the old root is never
  among \<^verbatim>\<open>removed\<close> and the new root never among \<^verbatim>\<open>added\<close>; the pair of roots is the first
  entry of \<^verbatim>\<open>unchanged\<close> when the comparator calls them identical and the first entry of
  \<^verbatim>\<open>modified\<close> otherwise. No similarity score is consulted for it.
\<close>

theorem roots_forced:
  "nid oldTree \<notin> nid ` set (removed (compareDOMTrees identical oldTree newTree))
   \<and> nid newTree \<notin> nid ` set (added (compareDOMTrees identical oldTree newTree))
   \<and> (if identical oldTree newTree
      then hd (unchanged (compareDOMTrees identical oldTree newTree)) = oldTree
         \<and> unchanged (compareDOMTrees identical oldTree newTree) \<noteq> []
      else hd (modified (compareDOMTrees identical oldTree newTree)) =
             \<lparr>oldElement = oldTree, newElement = newTree,
              changes = detectElementChanges oldTree newTree\<rparr>
         \<and> modified (compareDOMTrees identical oldTree newTree) \<noteq> [])"
proof -
  obtain ps where ps: "compareNodes identical oldTree newTree initialState =
      recordAll identical ((oldTree, newTree) # ps) initialState"
    using matched_pairs(1) by blast
  define st where "st = recordAll identical ((oldTree, newTree) # ps) initialState"
  have po: "nid oldTree \<in> processedOldElements st" and pn: "nid newTree \<in> processedNewElements st"
    unfolding st_def recordAll_processed by simp_all
  obtain ys where ys: "snd (fold visitRemoved (elements oldTree) (processedOldElements st, result st))
      = (result st)\<lparr>removed := removed (result st) @ ys\<rparr>" "\<forall>y\<in>set ys. nid y \<notin> processedOldElements st"
    using fold_visitRemoved_fresh by blast
  obtain zs where zs: "snd (fold visitAdded (elements newTree) (processedNewElements st,
        (result st)\<lparr>removed := removed (result st) @ ys\<rparr>))
      = (result st)\<lparr>removed := removed (result st) @ ys,
           added := added ((result st)\<lparr>removed := removed (result st) @ ys\<rparr>) @ zs\<rparr>"
      "\<forall>y\<in>set zs. nid y \<notin> processedNewElements st"
    using fold_visitAdded_fresh by blast
  have r: "compareDOMTrees identical oldTree newTree =
      (result st)\<lparr>removed := removed (result st) @ ys, added := added (result st) @ zs\<rparr>"
    unfolding compareDOMTrees_fold ps st_def [symmetric] ys zs by simp
  have init: "removed (result st) = []" "added (result st) = []"
    "unchanged (result st) = (if identical oldTree newTree then [oldTree] else []) @
       map fst (filter (\<lambda>p. identical (fst p) (snd p)) ps)"
    "modified (result st) = (if identical oldTree newTree then [] else [pairEntry (oldTree, newTree)]) @
       map pairEntry (filter (\<lambda>p. \<not> identical (fst p) (snd p)) ps)"
    unfolding st_def
    by (simp_all add: recordAll_result recordPair_result initialState_def emptyResult_def)
  show ?thesis
    unfolding r using init ys(2) zs(2) po pn by (auto simp: pairEntry_def)
qed

theorem roots_forced_witness:
  "\<not> sameXPathAndAttributes divRoot spanRoot
   \<and> calculateSimilarityScore divRoot spanRoot = 0
   \<and> nid divRoot \<notin> nid ` set (removed (compareDOMTrees sameXPathAndAttributes divRoot spanRoot))
   \<and> nid spanRoot \<notin> nid ` set (added (compareDOMTrees sameXPathAndAttributes divRoot spanRoot))
   \<and> hd (modified (compareDOMTrees sameXPathAndAttributes divRoot spanRoot)) =
        \<lparr>oldElement = divRoot, newElement = spanRoot,
         changes = detectElementChanges divRoot spanRoot\<rparr>"
proof -
  have d: "\<not> sameXPathAndAttributes divRoot spanRoot" by code_simp
  have s: "calculateSimilarityScore divRoot spanRoot = 0" by code_simp
  from roots_forced [of divRoot sameXPathAndAttributes spanRoot] d s show ?thesis by simp
qed



text \<open>
  C10 (empty-string attributes in the scorer). An element whose \<^verbatim>\<open>id\<close> is the empty string
  scores, on either side of a comparison, exactly as the same element without an
  \<^verbatim>\<open>id\<close>, so the id signal adds nothing and the score stays at or below 7/11, also when
  both sides carry the empty id; an element whose \<^verbatim>\<open>class\<close> is the empty string scores as the
  same element without a \<^verbatim>\<open>class\<close>, and the score is then one of the sums of the other three
  weights over 11.
\<close>

theorem empty_string_attributes_count_as_absent:
  assumes "isElement a"
  shows "(getAttr (attributes a) ''id'' = Some [] \<longrightarrow>
            calculateSimilarityScore a b = calculateSimilarityScore (withoutAttr ''id'' a) b
          \<and> calculateSimilarityScore b a = calculateSimilarityScore b (withoutAttr ''id'' a)
          \<and> calculateSimilarityScore a b \<le> 7 / 11 \<and> calculateSimilarityScore b a \<le> 7 / 11)
       \<and> (getAttr (attributes a) ''class'' = Some [] \<longrightarrow>
            calculateSimilarityScore a b = calculateSimilarityScore (withoutAttr ''class'' a) b
          \<and> calculateSimilarityScore b a = calculateSimilarityScore b (withoutAttr ''class'' a)
          \<and> calculateSimilarityScore a b \<in> {0, 2 / 11, 3 / 11, 4 / 11, 5 / 11, 6 / 11, 7 / 11, 9 / 11})"
proof (intro conjI impI)
  assume e: "getAttr (attributes a) ''id'' = Some []"
  show "calculateSimilarityScore a b = calculateSimilarityScore (withoutAttr ''id'' a) b"
    by (simp add: calculateSimilarityScore_def accum_id_absent_l [OF assms e])
  show "calculateSimilarityScore b a = calculateSimilarityScore b (withoutAttr ''id'' a)"
    by (simp add: calculateSimilarityScore_def accum_id_absent_r [OF assms e])
  show "calculateSimilarityScore a b \<le> 7 / 11"
    using accum_no_id [of a b] e by (simp add: score_eq)
  show "calculateSimilarityScore b a \<le> 7 / 11"
    using accum_no_id [of b a] e by (simp add: score_eq)
next
  assume e: "getAttr (attributes a) ''class'' = Some []"
  show "calculateSimilarityScore a b = calculateSimilarityScore (withoutAttr ''class'' a) b"
    by (simp add: calculateSimilarityScore_def accum_class_absent_l [OF assms e])
  show "calculateSimilarityScore b a = calculateSimilarityScore b (withoutAttr ''class'' a)"
    by (simp add: calculateSimilarityScore_def accum_class_absent_r [OF assms e])
  show "calculateSimilarityScore a b \<in> {0, 2 / 11, 3 / 11, 4 / 11, 5 / 11, 6 / 11, 7 / 11, 9 / 11}"
    using accum_no_class [of a b] e by (simp add: score_eq)
qed

theorem empty_string_attributes_count_as_absent_witness:
  "isElement blankNode \<and> getAttr (attributes blankNode) ''id'' = Some []
   \<and> getAttr (attributes blankNode) ''class'' = Some []
   \<and> calculateSimilarityScore blankNode blankNode =
       calculateSimilarityScore (withoutAttr ''id'' blankNode) blankNode
   \<and> calculateSimilarityScore blankNode blankNode \<le> 7 / 11
   \<and> calculateSimilarityScore blankNode blankNode =
       calculateSimilarityScore (withoutAttr ''class'' blankNode) blankNode"
proof -
  have e: "isElement blankNode" by code_simp
  have i: "getAttr (attributes blankNode) ''id'' = Some []" by code_simp
  have c: "getAttr (attributes blankNode) ''class'' = Some []" by code_simp
  from empty_string_attributes_count_as_absent [OF e, of blankNode] e i c show ?thesis by blast
qed

end
